theory Spec2Isabelle
  imports Main "HOL-Library.Word" "HOL-Library.AList" "HOL-Library.Sublist"
begin

section \<open>Strings\<close>

text \<open>
  A Python \<open>str\<close> is a sequence of Unicode code points and \<open>len\<close> counts code points, so a
  character is modelled by its code point and a string by the list of them. \<open>lit\<close> turns an
  ASCII literal into such a string.
\<close>

type_synonym pychar = nat
type_synonym pystr = "nat list"

definition lit :: "string \<Rightarrow> pystr" where
  "lit s = map of_char s"

section \<open>Filesystem Namer: \<open>sanitize_filename\<close>\<close>

text \<open>
  The character class of the first \<open>re.sub\<close>: the nine characters
  \<open>< > : " / \ | ? *\<close> (34 is the double quote, 92 the backslash).
\<close>

definition reserved_chars :: "pychar list" where
  "reserved_chars = [60, 62, 58, 34, 47, 92, 124, 63, 42]"

definition is_reserved :: "pychar \<Rightarrow> bool" where
  "is_reserved c = (c \<in> set reserved_chars)"

text \<open>The character class \<open>[\x00-\x1f\x7f]\<close> of the second \<open>re.sub\<close>.\<close>

definition is_control :: "pychar \<Rightarrow> bool" where
  "is_control c = (c \<le> 31 \<or> c = 127)"

text \<open>\<open>name.strip('. ')\<close>: dots (46) and spaces (32) are dropped from both ends.\<close>

definition is_dot_or_space :: "pychar \<Rightarrow> bool" where
  "is_dot_or_space c = (c = 46 \<or> c = 32)"

definition strip_dots_spaces :: "pystr \<Rightarrow> pystr" where
  "strip_dots_spaces s = rev (dropWhile is_dot_or_space (rev (dropWhile is_dot_or_space s)))"

definition replace_reserved :: "pystr \<Rightarrow> pystr" where
  "replace_reserved s = map (\<lambda>c. if is_reserved c then 95 else c) s"

definition remove_control :: "pystr \<Rightarrow> pystr" where
  "remove_control s = filter (\<lambda>c. \<not> is_control c) s"

text \<open>
  \<open>sanitize_filename\<close>, statement by statement. The last line of the source parses as
  \<open>name[:200] if len(name) > 200 else (name or "unnamed")\<close>.
\<close>

definition sanitize_filename :: "pystr \<Rightarrow> pystr" where
  "sanitize_filename name =
     (if name = [] then lit ''unnamed''
      else let name1 = replace_reserved name;
               name2 = strip_dots_spaces name1;
               name3 = remove_control name2
           in if length name3 > 200 then take 200 name3
              else if name3 = [] then lit ''unnamed'' else name3)"

text \<open>
  The sanitization as the specification words it: illegal characters and control characters
  are each replaced by an underscore, then dots and spaces are stripped from both ends, the
  result is truncated to 200 characters, and an empty result becomes the placeholder.
\<close>

definition sanitize_spec :: "pystr \<Rightarrow> pystr" where
  "sanitize_spec name =
     (let replaced = map (\<lambda>c. if is_reserved c \<or> is_control c then 95 else c) name;
          stripped = strip_dots_spaces replaced;
          truncated = take 200 stripped
      in if truncated = [] then lit ''unnamed'' else truncated)"

text \<open>
  The sanitization with the control characters deleted instead of replaced: reserved
  characters become underscores and control characters are deleted, then dots and spaces
  are stripped from both ends, the result is truncated to 200 characters, and an empty
  result becomes the placeholder.
\<close>

definition sanitize_amended :: "pystr \<Rightarrow> pystr" where
  "sanitize_amended name =
     (let cleaned = remove_control (replace_reserved name);
          stripped = strip_dots_spaces cleaned;
          truncated = take 200 stripped
      in if truncated = [] then lit ''unnamed'' else truncated)"

text \<open>
  A control character stands at the edge of a name when, with the leading and trailing
  dots and spaces set aside, the name begins or ends with a control character.
\<close>

definition control_at_edge :: "pystr \<Rightarrow> bool" where
  "control_at_edge name =
     (let core = strip_dots_spaces name
      in core \<noteq> [] \<and> (is_control (hd core) \<or> is_control (last core)))"

text \<open>
  The sanitization as the code performs it, as one pipeline: reserved characters become
  underscores, dots and spaces are stripped from both ends, control characters are then
  deleted, the result is truncated, and an empty result becomes the placeholder.
\<close>

definition sanitize_pipeline :: "pystr \<Rightarrow> pystr" where
  "sanitize_pipeline name =
     (let truncated = take 200 (remove_control (strip_dots_spaces (replace_reserved name)))
      in if truncated = [] then lit ''unnamed'' else truncated)"

section \<open>Filesystem Namer: \<open>get_unique_filepath\<close>\<close>

text \<open>
  \<open>str_nat\<close> is Python's \<open>str\<close> on a non-negative integer (the decimal digits, 48 is the digit
  zero), as the f-string of the loop renders \<open>counter\<close>.
\<close>

fun str_nat :: "nat \<Rightarrow> pystr" where
  "str_nat n = (if n < 10 then [48 + n] else str_nat (n div 10) @ [48 + n mod 10])"

declare str_nat.simps [simp del]

lemma str_nat_nonempty: "str_nat n \<noteq> []"
  by (subst str_nat.simps) simp

lemma str_nat_last: "last (str_nat n) = 48 + n mod 10"
  by (subst str_nat.simps) simp

lemma str_nat_butlast: "butlast (str_nat n) = (if n < 10 then [] else str_nat (n div 10))"
  by (subst str_nat.simps) simp

lemma str_nat_inj: "str_nat m = str_nat n \<Longrightarrow> m = n"
proof (induction m arbitrary: n rule: str_nat.induct)
  case (1 m)
  from "1.prems" have l: "m mod 10 = n mod 10"
    using str_nat_last [of m] str_nat_last [of n] by simp
  from "1.prems" have b: "butlast (str_nat m) = butlast (str_nat n)" by simp
  show ?case
  proof (cases "m < 10")
    case True
    with b have "n < 10" using str_nat_nonempty [of "n div 10"]
      by (auto simp: str_nat_butlast split: if_splits)
    with True l show ?thesis by simp
  next
    case False
    with b have n: "\<not> n < 10" using str_nat_nonempty [of "m div 10"]
      by (auto simp: str_nat_butlast split: if_splits)
    with False b have "str_nat (m div 10) = str_nat (n div 10)"
      by (simp add: str_nat_butlast)
    with "1.IH" False have "m div 10 = n div 10" by blast
    with l show ?thesis
      by (metis div_mult_mod_eq)
  qed
qed


text \<open>
  The filesystem is what \<open>os.path.exists\<close>, \<open>open\<close> and \<open>os.remove\<close> see of it: finitely many
  paths, each with the bytes stored there. \<open>path_join\<close> is \<open>os.path.join\<close> on two components
  with the POSIX separator (47 is the slash).
\<close>

type_synonym path = pystr
type_synonym bytes = "8 word list"
type_synonym filesystem = "(path \<times> bytes) list"

definition path_exists :: "filesystem \<Rightarrow> path \<Rightarrow> bool" where
  "path_exists fs p = (map_of fs p \<noteq> None)"

definition path_join :: "path \<Rightarrow> pystr \<Rightarrow> path" where
  "path_join a b =
     (if take 1 b = [47] then b
      else if a = [] \<or> last a = 47 then a @ b
      else a @ [47] @ b)"

definition plain_name :: "path \<Rightarrow> pystr \<Rightarrow> pystr \<Rightarrow> path" where
  "plain_name directory base_filename extension = path_join directory (base_filename @ extension)"

definition numbered_name :: "path \<Rightarrow> pystr \<Rightarrow> pystr \<Rightarrow> nat \<Rightarrow> path" where
  "numbered_name directory base_filename extension counter =
     path_join directory (base_filename @ [95] @ str_nat counter @ extension)"

lemma numbered_name_shape:
  "\<exists>pre. \<forall>k. numbered_name d b e k = pre @ str_nat k @ e"
proof (cases "take 1 (b @ [95]) = [47]")
  case True
  then have "\<forall>k. numbered_name d b e k = (b @ [95]) @ str_nat k @ e"
    by (cases b) (auto simp: numbered_name_def path_join_def)
  then show ?thesis by blast
next
  case False
  then have n: "take 1 (b @ [95] @ str_nat k @ e) \<noteq> [47]" for k
    by (cases b) auto
  show ?thesis
  proof (cases "d = [] \<or> last d = 47")
    case True
    with n have "\<forall>k. numbered_name d b e k = (d @ b @ [95]) @ str_nat k @ e"
      by (simp add: numbered_name_def path_join_def)
    then show ?thesis by blast
  next
    case False
    with n have "\<forall>k. numbered_name d b e k = (d @ [47] @ b @ [95]) @ str_nat k @ e"
      by (simp add: numbered_name_def path_join_def)
    then show ?thesis by blast
  qed
qed

lemma numbered_name_inj: "inj (numbered_name d b e)"
proof -
  obtain pre where p: "\<And>k. numbered_name d b e k = pre @ str_nat k @ e"
    using numbered_name_shape by blast
  show ?thesis
    by (rule injI) (auto simp: p dest: str_nat_inj)
qed

text \<open>
  The numbers from \<open>c\<close> on whose numbered name exists: a finite set, whose size is the
  measure of the loop below.
\<close>

definition taken_from :: "filesystem \<Rightarrow> path \<Rightarrow> pystr \<Rightarrow> pystr \<Rightarrow> nat \<Rightarrow> nat set" where
  "taken_from fs d b e c = {k. c \<le> k \<and> path_exists fs (numbered_name d b e k)}"

lemma finite_taken_from: "finite (taken_from fs d b e c)"
proof -
  have "taken_from fs d b e c \<subseteq> numbered_name d b e -` dom (map_of fs)"
    by (auto simp: taken_from_def path_exists_def)
  moreover have "finite (numbered_name d b e -` dom (map_of fs))"
    by (rule finite_vimageI [OF finite_dom_map_of numbered_name_inj])
  ultimately show ?thesis by (rule finite_subset)
qed

lemma taken_from_Suc:
  "taken_from fs d b e (Suc c) = taken_from fs d b e c - {c}"
  by (auto simp: taken_from_def)

lemma card_taken_from_Suc:
  "path_exists fs (numbered_name d b e c) \<Longrightarrow>
   card (taken_from fs d b e (Suc c)) < card (taken_from fs d b e c)"
proof -
  assume "path_exists fs (numbered_name d b e c)"
  then have "c \<in> taken_from fs d b e c" by (simp add: taken_from_def)
  then show ?thesis
    unfolding taken_from_Suc
    by (rule card_Diff1_less [OF finite_taken_from])
qed

lemma card_taken_from_Suc_le:
  "card (taken_from fs d b e (Suc c)) \<le> card (taken_from fs d b e c)"
  using finite_taken_from [of fs d b e c]
  by (simp add: taken_from_Suc card_Diff1_le)

text \<open>
  The \<open>while\<close> loop of \<open>get_unique_filepath\<close> on its two variables \<open>file_path\<close> and
  \<open>counter\<close>. It terminates because the numbered names are pairwise distinct and only
  finitely many paths exist.
\<close>

function unique_loop :: "filesystem \<Rightarrow> path \<Rightarrow> pystr \<Rightarrow> pystr \<Rightarrow> path \<Rightarrow> nat \<Rightarrow> path" where
  "unique_loop fs directory base_filename extension file_path counter =
     (if path_exists fs file_path
      then unique_loop fs directory base_filename extension
             (numbered_name directory base_filename extension counter) (counter + 1)
      else file_path)"
  by pat_completeness auto
termination
proof (relation "measure (\<lambda>(fs, d, b, e, p, c).
         2 * card (taken_from fs d b e c) + (if path_exists fs p then 1 else 0))")
  show "wf (measure (\<lambda>(fs, d, b, e, p, c).
         2 * card (taken_from fs d b e c) + (if path_exists fs p then 1 else 0)))"
    by simp
next
  fix fs :: filesystem and d b e p :: pystr and c :: nat
  assume ex: "path_exists fs p"
  show "((fs, d, b, e, numbered_name d b e c, c + 1), (fs, d, b, e, p, c))
        \<in> measure (\<lambda>(fs, d, b, e, p, c).
             2 * card (taken_from fs d b e c) + (if path_exists fs p then 1 else 0))"
    using ex card_taken_from_Suc [of fs d b e c] card_taken_from_Suc_le [of fs d b e c]
    by auto
qed

declare unique_loop.simps [simp del]

definition get_unique_filepath :: "filesystem \<Rightarrow> path \<Rightarrow> pystr \<Rightarrow> pystr \<Rightarrow> path" where
  "get_unique_filepath fs directory base_filename extension =
     (let file_path = plain_name directory base_filename extension
      in if path_exists fs file_path
         then unique_loop fs directory base_filename extension file_path 1
         else file_path)"

section \<open>Streaming Downloader: the loop body of \<open>download_webms\<close>\<close>

text \<open>
  A post of a decoded thread. Each field is what \<open>post.get\<close> returns for the keys
  \<open>ext\<close>, \<open>tim\<close> and \<open>filename\<close>; \<open>None\<close> stands for an absent key (or a JSON null).
\<close>

type_synonym url = pystr

record post_record =
  post_ext :: "pystr option"
  post_tim :: "int option"
  post_filename :: "pystr option"

text \<open>
  What the world outside of the function does while one post is processed.
  \<^item> \<open>race\<close>: another writer may create the chosen path after \<open>get_unique_filepath\<close> has
    returned, either before the existence check of the loop body or after it.
  \<^item> \<open>response\<close>: \<open>requests.get\<close> followed by \<open>raise_for_status\<close> raises \<open>Timeout\<close>, raises
    another \<open>RequestException\<close>, or yields a response with a content-length header and a
    body. The body is the list of chunks that the write loop stored, together with the way
    the loop ended: the iterator was exhausted, \<open>iter_content\<close> raised a
    \<open>RequestException\<close>, or \<open>f.write\<close> raised an \<open>OSError\<close>. \<open>iter_content\<close> never raises
    \<open>Timeout\<close>: the library turns a read timeout of the stream into its \<open>ConnectionError\<close>,
    which is a \<open>RequestException\<close> and no \<open>Timeout\<close>.
  \<^item> \<open>open_denied\<close>: \<open>open(file_path, "xb")\<close> raises an \<open>OSError\<close> other than
    \<open>FileExistsError\<close>.
  \<^item> \<open>remove_fails\<close>: \<open>os.remove\<close> raises an \<open>OSError\<close>.
\<close>

datatype race = NoRace | RaceBeforeCheck bytes | RaceAfterCheck bytes

datatype content_length = NoHeader | HeaderInt int | HeaderUnparsable

datatype stream_end = Exhausted | StreamRequestException | WriteOSError

datatype response =
    RaisesTimeout
  | RaisesRequestException
  | Response content_length "bytes list" stream_end

record attempt_env =
  race :: race
  response :: response
  open_denied :: bool
  remove_fails :: bool

text \<open>
  The calls of \<open>logger\<close> in \<open>download_webms\<close> and in the loop of \<open>main\<close>, one constructor per
  call site, with the values the message is formatted from.
\<close>

datatype log_entry =
    InfoNoWebms pystr
  | ErrorCreatingDirectory pystr
  | InfoDownloading nat pystr
  | DebugFileExists path
  | WarningNoTim
  | InfoDownloaded path
  | DebugCreatedByOther path
  | ErrorTimeout url
  | ErrorDownloading url
  | ErrorUnexpected
  | InfoProcessingThread pystr int
  | ErrorProcessingThread pystr int
  | InfoSessionCompleted nat nat

text \<open>
  The way one iteration of the loop leaves the loop body: the file was written to its end
  (\<open>Downloaded\<close>), one of the two \<open>continue\<close> statements for an existing file was reached
  (\<open>Skipped\<close>), one of the three \<open>except\<close> clauses was reached (\<open>Failed\<close>), or the
  \<open>continue\<close> for a missing \<open>tim\<close> was reached (\<open>NoRemoteId\<close>).
\<close>

datatype error_kind = TimeoutError | RequestError | UnexpectedError

datatype outcome = Downloaded path | Skipped path | Failed error_kind | NoRemoteId

fun is_terminal :: "outcome \<Rightarrow> bool" where
  "is_terminal NoRemoteId = False"
| "is_terminal _ = True"

text \<open>
  The result of one iteration: its outcome, the filesystem it leaves, the local variable
  \<open>filename\<close> (\<open>None\<close> while it is unbound: it is assigned only after a response has
  arrived), the URLs requested and the log entries written.
\<close>

record step =
  outcome :: outcome
  files_after :: filesystem
  filename_after :: "pystr option"
  requested :: "url list"
  logged :: "log_entry list"

subsection \<open>File operations\<close>

definition other_writer :: "filesystem \<Rightarrow> path \<Rightarrow> bytes \<Rightarrow> filesystem" where
  "other_writer fs p content = AList.update p content fs"

definition create_file :: "filesystem \<Rightarrow> path \<Rightarrow> filesystem" where
  "create_file fs p = AList.update p [] fs"

definition append_file :: "filesystem \<Rightarrow> path \<Rightarrow> bytes \<Rightarrow> filesystem" where
  "append_file fs p chunk =
     (case map_of fs p of None \<Rightarrow> fs | Some old \<Rightarrow> AList.update p (old @ chunk) fs)"

definition remove_file :: "filesystem \<Rightarrow> path \<Rightarrow> filesystem" where
  "remove_file fs p = AList.delete p fs"

text \<open>
  The write loop \<open>for chunk in response.iter_content(...): if chunk: f.write(chunk)\<close>. Both
  branches of \<open>if total_size > 0\<close> run this loop; they differ in the progress bar only.
\<close>

primrec write_chunks :: "filesystem \<Rightarrow> path \<Rightarrow> bytes list \<Rightarrow> filesystem" where
  "write_chunks fs p [] = fs"
| "write_chunks fs p (chunk # rest) =
     write_chunks (if chunk \<noteq> [] then append_file fs p chunk else fs) p rest"

text \<open>\<open>os.path.basename\<close>: what follows the last slash.\<close>

definition basename :: "path \<Rightarrow> pystr" where
  "basename p = rev (takeWhile (\<lambda>c. c \<noteq> 47) (rev p))"

text \<open>Python's \<open>str\<close> on an integer (45 is the minus sign), and the URL of an attachment.\<close>

definition str_int :: "int \<Rightarrow> pystr" where
  "str_int i = (if i < 0 then 45 # str_nat (nat (- i)) else str_nat (nat i))"

definition file_url :: "int \<Rightarrow> url" where
  "file_url t = lit ''https://i.4cdn.org/gif/'' @ str_int t @ lit ''.webm''"

subsection \<open>The exception handlers\<close>

text \<open>
  The clean-up of the handlers for \<open>Timeout\<close> and \<open>RequestException\<close>: the file at the
  target path is removed when it exists; an \<open>OSError\<close> of \<open>os.remove\<close> is passed over
  in silence.
\<close>

definition cleanup :: "attempt_env \<Rightarrow> filesystem \<Rightarrow> path \<Rightarrow> filesystem" where
  "cleanup env fs file_path =
     (if path_exists fs file_path
      then (if remove_fails env then fs else remove_file fs file_path)
      else fs)"

text \<open>The handler \<open>except Exception\<close> that closes the loop body.\<close>

definition unexpected :: "filesystem \<Rightarrow> pystr option \<Rightarrow> url list \<Rightarrow> log_entry list \<Rightarrow> step" where
  "unexpected fs fname reqs entries =
     \<lparr>outcome = Failed UnexpectedError, files_after = fs, filename_after = fname,
      requested = reqs, logged = entries @ [ErrorUnexpected]\<rparr>"

text \<open>
  The handlers \<open>except Timeout\<close> and \<open>except RequestException\<close>. Each logs its error and then
  prints a message formatted from \<open>filename\<close>. When that variable is still unbound, the
  \<open>print\<close> raises \<open>UnboundLocalError\<close>, the clean-up below it is not reached, and the
  exception ends in the handler \<open>except Exception\<close>.
\<close>

definition request_failed ::
  "error_kind \<Rightarrow> log_entry \<Rightarrow> attempt_env \<Rightarrow> path \<Rightarrow> filesystem \<Rightarrow> pystr option \<Rightarrow> url \<Rightarrow> step" where
  "request_failed kind entry env file_path fs fname u =
     (case fname of
        None \<Rightarrow> unexpected fs fname [u] [entry]
      | Some _ \<Rightarrow>
          \<lparr>outcome = Failed kind, files_after = cleanup env fs file_path, filename_after = fname,
           requested = [u], logged = [entry]\<rparr>)"

subsection \<open>The loop body\<close>

text \<open>
  The block that follows a response without error: the content length is read, \<open>filename\<close>
  is assigned, the file is opened with exclusive creation and the body is streamed to it.
\<close>

definition store_response ::
  "attempt_env \<Rightarrow> path \<Rightarrow> url \<Rightarrow> content_length \<Rightarrow> bytes list \<Rightarrow> stream_end
     \<Rightarrow> filesystem \<Rightarrow> pystr option \<Rightarrow> step" where
  "store_response env file_path u cl chunks fin fs fname =
     (if cl = HeaderUnparsable then unexpected fs fname [u] []
      else
        let fname' = Some (basename file_path) in
        if path_exists fs file_path then
          \<lparr>outcome = Skipped file_path, files_after = fs, filename_after = fname',
           requested = [u], logged = [DebugCreatedByOther file_path]\<rparr>
        else if open_denied env then unexpected fs fname' [u] []
        else
          let fs' = write_chunks (create_file fs file_path) file_path chunks in
          case fin of
            Exhausted \<Rightarrow>
              \<lparr>outcome = Downloaded file_path, files_after = fs', filename_after = fname',
               requested = [u], logged = [InfoDownloaded file_path]\<rparr>
          | StreamRequestException \<Rightarrow>
              request_failed RequestError (ErrorDownloading u) env file_path fs' fname' u
          | WriteOSError \<Rightarrow> unexpected fs' fname' [u] [])"

text \<open>The request and what follows it, for a post whose \<open>tim\<close> is truthy.\<close>

definition attempt_download ::
  "attempt_env \<Rightarrow> path \<Rightarrow> int \<Rightarrow> filesystem \<Rightarrow> pystr option \<Rightarrow> step" where
  "attempt_download env file_path t fs fname =
     (let u = file_url t in
      case response env of
        RaisesTimeout \<Rightarrow> request_failed TimeoutError (ErrorTimeout u) env file_path fs fname u
      | RaisesRequestException \<Rightarrow>
          request_failed RequestError (ErrorDownloading u) env file_path fs fname u
      | Response cl chunks fin \<Rightarrow> store_response env file_path u cl chunks fin fs fname)"

text \<open>
  The path chosen for a post: \<open>webm.get('filename', 'unnamed')\<close> is sanitized (a null
  file name is falsy and gives the placeholder as well) and made unique in the directory.
\<close>

definition target_path :: "path \<Rightarrow> post_record \<Rightarrow> filesystem \<Rightarrow> path" where
  "target_path safe_title webm fs =
     (let base_filename =
            (case post_filename webm of
               None \<Rightarrow> sanitize_filename (lit ''unnamed'')
             | Some name \<Rightarrow> sanitize_filename name)
      in get_unique_filepath fs safe_title base_filename (lit ''.webm''))"

definition no_tim :: "filesystem \<Rightarrow> pystr option \<Rightarrow> step" where
  "no_tim fs fname =
     \<lparr>outcome = NoRemoteId, files_after = fs, filename_after = fname,
      requested = [], logged = [WarningNoTim]\<rparr>"

text \<open>
  The filesystem as the other writer leaves it at the two points where the loop body looks
  at the chosen path: the existence check, and the request with the exclusive creation
  that follows it.
\<close>

definition race_before_check :: "attempt_env \<Rightarrow> filesystem \<Rightarrow> path \<Rightarrow> filesystem" where
  "race_before_check env fs file_path =
     (case race env of RaceBeforeCheck content \<Rightarrow> other_writer fs file_path content | _ \<Rightarrow> fs)"

definition race_after_check :: "attempt_env \<Rightarrow> filesystem \<Rightarrow> path \<Rightarrow> filesystem" where
  "race_after_check env fs file_path =
     (case race env of RaceAfterCheck content \<Rightarrow> other_writer fs file_path content | _ \<Rightarrow> fs)"

text \<open>One iteration of \<open>for webm in webms\<close>.\<close>

definition webm_iteration ::
  "path \<Rightarrow> attempt_env \<Rightarrow> post_record \<Rightarrow> filesystem \<Rightarrow> pystr option \<Rightarrow> step" where
  "webm_iteration safe_title env webm fs fname =
     (let file_path = target_path safe_title webm fs;
          fs1 = race_before_check env fs file_path
      in if path_exists fs1 file_path then
           \<lparr>outcome = Skipped file_path, files_after = fs1, filename_after = fname,
            requested = [], logged = [DebugFileExists file_path]\<rparr>
         else
           case post_tim webm of
             None \<Rightarrow> no_tim fs1 fname
           | Some t \<Rightarrow>
               if t = 0 then no_tim fs1 fname
               else attempt_download env file_path t (race_after_check env fs1 file_path) fname)"

section \<open>\<open>download_webms\<close>\<close>

text \<open>
  The result of a run over several posts: the outcome of each iteration in order, the
  filesystem left, the URLs requested, the log entries written, and whether the function
  returned or an exception left it.
\<close>

datatype completion = Returned | Raised

record run =
  outcomes :: "outcome list"
  files :: filesystem
  requests :: "url list"
  log :: "log_entry list"
  ending :: completion

text \<open>
  The loop \<open>for webm in webms\<close>; \<open>envs i\<close> is what the world does during iteration \<open>i\<close>.
\<close>

fun webm_loop ::
  "path \<Rightarrow> (nat \<Rightarrow> attempt_env) \<Rightarrow> nat \<Rightarrow> post_record list \<Rightarrow> filesystem \<Rightarrow> pystr option \<Rightarrow> run" where
  "webm_loop safe_title envs i [] fs fname =
     \<lparr>outcomes = [], files = fs, requests = [], log = [], ending = Returned\<rparr>"
| "webm_loop safe_title envs i (webm # rest) fs fname =
     (let st = webm_iteration safe_title (envs i) webm fs fname;
          r = webm_loop safe_title envs (Suc i) rest (files_after st) (filename_after st)
      in \<lparr>outcomes = outcome st # outcomes r, files = files r,
          requests = requested st @ requests r, log = logged st @ log r,
          ending = ending r\<rparr>)"

text \<open>
  What the world does while one listing is processed: what \<open>os.makedirs\<close> does, and the
  environment of each iteration. \<open>os.makedirs\<close> creates the directory (or finds it), raises
  an \<open>OSError\<close>, or raises an exception that is no \<open>OSError\<close>, as it does with
  \<open>UnicodeEncodeError\<close> for a title that holds a lone surrogate.
\<close>

datatype makedirs_result = MakedirsCreated | MakedirsOSError | MakedirsOtherError

record listing_env =
  makedirs :: makedirs_result
  attempts :: "nat \<Rightarrow> attempt_env"

definition is_webm :: "post_record \<Rightarrow> bool" where
  "is_webm p = (post_ext p = Some (lit ''.webm''))"

text \<open>
  \<open>truthy_tim\<close> is the negation of the test \<open>if not tim\<close>. \<open>remote_ids\<close> lists the remote ids
  that pass it, in the order of the posts.
\<close>

definition truthy_tim :: "post_record \<Rightarrow> bool" where
  "truthy_tim p = (case post_tim p of None \<Rightarrow> False | Some t \<Rightarrow> t \<noteq> 0)"

fun remote_ids :: "post_record list \<Rightarrow> int list" where
  "remote_ids [] = []"
| "remote_ids (p # ps) =
     (case post_tim p of
        None \<Rightarrow> remote_ids ps
      | Some t \<Rightarrow> if t = 0 then remote_ids ps else t # remote_ids ps)"

text \<open>
  \<open>download_webms\<close>; \<open>thread_data\<close> is the list under the key \<open>posts\<close> (empty when the key is
  absent). The handler around \<open>os.makedirs\<close> catches \<open>OSError\<close> only: any other exception
  leaves the function before anything is logged or downloaded.
\<close>

definition download_webms :: "post_record list \<Rightarrow> pystr \<Rightarrow> listing_env \<Rightarrow> filesystem \<Rightarrow> run" where
  "download_webms thread_data thread_title lenv fs =
     (let webms = filter is_webm thread_data in
      if webms = [] then
        \<lparr>outcomes = [], files = fs, requests = [], log = [InfoNoWebms thread_title],
         ending = Returned\<rparr>
      else
        let safe_title = sanitize_filename thread_title in
        case makedirs lenv of
          MakedirsOSError \<Rightarrow>
            \<lparr>outcomes = [], files = fs, requests = [], log = [ErrorCreatingDirectory safe_title],
             ending = Returned\<rparr>
        | MakedirsOtherError \<Rightarrow>
            \<lparr>outcomes = [], files = fs, requests = [], log = [], ending = Raised\<rparr>
        | MakedirsCreated \<Rightarrow>
            let r = webm_loop safe_title (attempts lenv) 0 webms fs None
            in r\<lparr>log := InfoDownloading (length webms) thread_title # log r\<rparr>)"

section \<open>Batch Orchestrator: the loop of \<open>main\<close> over the completed fetches\<close>

text \<open>
  A job is a selected thread together with what \<open>future.result()\<close> gives for it: the
  exception that \<open>get_thread_data\<close> raised, or the decoded thread. The list of jobs is in
  completion order.
\<close>

datatype fetch_error = FetchTimeout | FetchRequestException | FetchJSONDecodeError

record job =
  thread_id :: int
  thread_title :: pystr
  fetched :: "fetch_error + post_record list"
  world :: listing_env

datatype disposition = Done "outcome list" | Errored fetch_error | Aborted

text \<open>
  The state of the loop: the two counters, the filesystem, and what has been reported,
  requested and logged so far. \<open>report\<close> records per job the branch of the \<open>try\<close> statement
  that counted it: \<open>Done\<close> for the line after \<open>download_webms\<close>, \<open>Errored\<close> for the handler
  reached from \<open>future.result()\<close>, \<open>Aborted\<close> for the handler reached from \<open>download_webms\<close>.
\<close>

record batch =
  report :: "(int \<times> disposition) list"
  successful_downloads :: nat
  failed_downloads :: nat
  batch_files :: filesystem
  batch_requests :: "url list"
  batch_log :: "log_entry list"

text \<open>
  One iteration of \<open>for future in as_completed(futures)\<close>. The \<open>try\<close> statement covers
  \<open>future.result()\<close> and \<open>download_webms\<close> alike: an exception from either is logged and
  counted in \<open>failed_downloads\<close>.
\<close>

definition process_future :: "job \<Rightarrow> batch \<Rightarrow> batch" where
  "process_future j b =
     (case fetched j of
        Inl e \<Rightarrow>
          b\<lparr>report := report b @ [(thread_id j, Errored e)],
            failed_downloads := failed_downloads b + 1,
            batch_log := batch_log b @ [ErrorProcessingThread (thread_title j) (thread_id j)]\<rparr>
      | Inr thread_data \<Rightarrow>
          let r = download_webms thread_data (thread_title j) (world j) (batch_files b)
          in case ending r of
               Returned \<Rightarrow>
                 b\<lparr>report := report b @ [(thread_id j, Done (outcomes r))],
                   successful_downloads := successful_downloads b + 1,
                   batch_files := files r,
                   batch_requests := batch_requests b @ requests r,
                   batch_log := batch_log b
                     @ [InfoProcessingThread (thread_title j) (thread_id j)] @ log r\<rparr>
             | Raised \<Rightarrow>
                 b\<lparr>report := report b @ [(thread_id j, Aborted)],
                   failed_downloads := failed_downloads b + 1,
                   batch_files := files r,
                   batch_requests := batch_requests b @ requests r,
                   batch_log := batch_log b
                     @ [InfoProcessingThread (thread_title j) (thread_id j)] @ log r
                     @ [ErrorProcessingThread (thread_title j) (thread_id j)]\<rparr>)"

fun process_futures :: "job list \<Rightarrow> batch \<Rightarrow> batch" where
  "process_futures [] b = b"
| "process_futures (j # js) b = process_futures js (process_future j b)"

definition start :: "filesystem \<Rightarrow> batch" where
  "start fs =
     \<lparr>report = [], successful_downloads = 0, failed_downloads = 0, batch_files = fs,
      batch_requests = [], batch_log = []\<rparr>"

text \<open>
  The loop with the counters at zero, followed by the summary that \<open>main\<close> logs at the end.
\<close>

definition run_batch :: "job list \<Rightarrow> filesystem \<Rightarrow> batch" where
  "run_batch jobs fs =
     (let b = process_futures jobs (start fs)
      in b\<lparr>batch_log := batch_log b
             @ [InfoSessionCompleted (successful_downloads b) (failed_downloads b)]\<rparr>)"

text \<open>
  Whether a job ends on the line that counts a success: its fetch succeeded and no
  exception left \<open>download_webms\<close>, which the creation of the directory alone decides.
\<close>

definition processing_raises :: "post_record list \<Rightarrow> listing_env \<Rightarrow> bool" where
  "processing_raises thread_data lenv =
     (filter is_webm thread_data \<noteq> [] \<and> makedirs lenv = MakedirsOtherError)"

definition counted_successful :: "job \<Rightarrow> bool" where
  "counted_successful j =
     (case fetched j of
        Inl e \<Rightarrow> False
      | Inr thread_data \<Rightarrow> \<not> processing_raises thread_data (world j))"

text \<open>
  What a batch adds to the batch it starts from: reports, requests and log entries are
  appended, the counters are added, and the filesystem is the one left at the end.
\<close>

definition append_batch :: "batch \<Rightarrow> batch \<Rightarrow> batch" where
  "append_batch b d =
     \<lparr>report = report b @ report d,
      successful_downloads = successful_downloads b + successful_downloads d,
      failed_downloads = failed_downloads b + failed_downloads d,
      batch_files = batch_files d,
      batch_requests = batch_requests b @ batch_requests d,
      batch_log = batch_log b @ batch_log d\<rparr>"

section \<open>Concrete worlds\<close>

text \<open>
  The inputs of the examples below: a post with the extension \<open>.webm\<close> and the file name
  \<open>a\<close>, a world in which nothing goes wrong and the body arrives in three chunks, one in
  which another writer creates the target after the existence check, and one in which the
  connection breaks after the first chunk.
\<close>

definition quiet :: attempt_env where
  "quiet = \<lparr>race = NoRace, response = Response (HeaderInt 3) [[1, 2], [], [3]] Exhausted,
            open_denied = False, remove_fails = False\<rparr>"

definition calm :: listing_env where
  "calm = \<lparr>makedirs = MakedirsCreated, attempts = (\<lambda>i. quiet)\<rparr>"

definition webm_post :: "int option \<Rightarrow> post_record" where
  "webm_post t = \<lparr>post_ext = Some (lit ''.webm''), post_tim = t, post_filename = Some (lit ''a'')\<rparr>"

definition racing :: attempt_env where
  "racing = \<lparr>race = RaceAfterCheck [9, 9], response = Response (HeaderInt 3) [[1, 2], [], [3]] Exhausted,
             open_denied = False, remove_fails = False\<rparr>"

definition dropping :: attempt_env where
  "dropping = \<lparr>race = NoRace, response = Response (HeaderInt 3) [[1, 2]] StreamRequestException,
               open_denied = False, remove_fails = False\<rparr>"

text \<open>
  A listing in which every stream breaks, a job whose fetch succeeded with one such post,
  and a job whose fetch timed out.
\<close>

definition dropped :: listing_env where
  "dropped = \<lparr>makedirs = MakedirsCreated, attempts = (\<lambda>i. dropping)\<rparr>"

definition fetched_job :: "int \<Rightarrow> pystr \<Rightarrow> listing_env \<Rightarrow> job" where
  "fetched_job n title lenv =
     \<lparr>thread_id = n, thread_title = title, fetched = Inr [webm_post (Some 7)], world = lenv\<rparr>"

definition failed_job :: "int \<Rightarrow> job" where
  "failed_job n =
     \<lparr>thread_id = n, thread_title = lit ''U'', fetched = Inl FetchTimeout, world = calm\<rparr>"

text \<open>
  A world in which \<open>f.write\<close> fails after the first chunk, and one in which the request
  itself times out.
\<close>

definition disk_full :: attempt_env where
  "disk_full = \<lparr>race = NoRace, response = Response (HeaderInt 3) [[1, 2]] WriteOSError,
                open_denied = False, remove_fails = False\<rparr>"

definition unreachable :: attempt_env where
  "unreachable = \<lparr>race = NoRace, response = RaisesTimeout,
                  open_denied = False, remove_fails = False\<rparr>"

text \<open>A listing for which \<open>os.makedirs\<close> raises an exception that is no \<open>OSError\<close>.\<close>

definition uncreatable :: listing_env where
  "uncreatable = \<lparr>makedirs = MakedirsOtherError, attempts = (\<lambda>i. quiet)\<rparr>"

section \<open>Properties of \<open>sanitize_filename\<close>\<close>

lemma unnamed_not_reserved: "c \<in> set (lit ''unnamed'') \<Longrightarrow> \<not> is_reserved c"
  by (auto simp: lit_def is_reserved_def reserved_chars_def)

lemma replace_reserved_clean: "c \<in> set (replace_reserved s) \<Longrightarrow> \<not> is_reserved c"
  by (auto simp: replace_reserved_def is_reserved_def reserved_chars_def)

lemma set_strip_subset: "set (strip_dots_spaces s) \<subseteq> set s"
proof -
  have "set (strip_dots_spaces s) = set (dropWhile is_dot_or_space (rev (dropWhile is_dot_or_space s)))"
    by (simp add: strip_dots_spaces_def)
  also have "\<dots> \<subseteq> set (rev (dropWhile is_dot_or_space s))"
    by (rule set_dropWhileD [THEN subsetI])
  also have "\<dots> \<subseteq> set s"
    using set_dropWhileD [of _ is_dot_or_space s] by auto
  finally show ?thesis .
qed

lemma set_remove_control_subset: "set (remove_control s) \<subseteq> set s"
  by (auto simp: remove_control_def)

lemma sanitize_body_clean:
  "c \<in> set (remove_control (strip_dots_spaces (replace_reserved s))) \<Longrightarrow> \<not> is_reserved c"
  using set_remove_control_subset set_strip_subset replace_reserved_clean by blast

text \<open>
  C7. For every input string, also the empty one and those made only of reserved or control
  characters, \<open>sanitize_filename\<close> returns a non-empty string of at most 200 characters in
  which none of the reserved characters occurs.
\<close>

theorem sanitize_total_bounded:
  "sanitize_filename name \<noteq> []
   \<and> length (sanitize_filename name) \<le> 200
   \<and> (\<forall>c \<in> set (sanitize_filename name). \<not> is_reserved c)"
proof -
  let ?b = "remove_control (strip_dots_spaces (replace_reserved name))"
  have u: "lit ''unnamed'' \<noteq> [] \<and> length (lit ''unnamed'') \<le> 200"
    by (simp add: lit_def)
  have nonempty: "sanitize_filename name \<noteq> []"
    using u by (auto simp: sanitize_filename_def Let_def)
  have bounded: "length (sanitize_filename name) \<le> 200"
    using u by (auto simp: sanitize_filename_def Let_def)
  have clean: "\<not> is_reserved c" if "c \<in> set (sanitize_filename name)" for c
  proof -
    from that have "c \<in> set (lit ''unnamed'') \<or> c \<in> set ?b"
      by (auto simp: sanitize_filename_def Let_def split: if_splits dest: in_set_takeD)
    then show ?thesis
      using unnamed_not_reserved sanitize_body_clean by blast
  qed
  from nonempty bounded clean show ?thesis by blast
qed

theorem sanitize_total_bounded_witness:
  "sanitize_filename (lit ''a/b'') = lit ''a_b''
   \<and> sanitize_filename (lit ''a/b'') \<noteq> []
   \<and> length (sanitize_filename (lit ''a/b'')) \<le> 200
   \<and> \<not> is_reserved 95"
proof -
  have e: "sanitize_filename (lit ''a/b'') = lit ''a_b''"
    by code_simp
  have m: "95 \<in> set (sanitize_filename (lit ''a/b''))"
    unfolding e by (simp add: lit_def)
  from sanitize_total_bounded [of "lit ''a/b''"] e m show ?thesis
    by blast
qed

text \<open>
  C8 as stated: for every input, \<open>sanitize_filename\<close> computes what \<open>sanitize_spec\<close>
  describes. It does not: a control character inside a name is deleted by the code, where
  the specification puts an underscore.
\<close>

theorem sanitize_control_counterexample:
  "sanitize_filename [97, 1, 98] = [97, 98]
   \<and> sanitize_spec [97, 1, 98] = [97, 95, 98]
   \<and> sanitize_filename [97, 1, 98] \<noteq> sanitize_spec [97, 1, 98]"
proof -
  have a: "sanitize_filename [97, 1, 98] = [97, 98]" by code_simp
  have b: "sanitize_spec [97, 1, 98] = [97, 95, 98]" by code_simp
  from a b show ?thesis by simp
qed

text \<open>
  The early return on an empty input and the conditional expression of the last line agree
  with the pipeline of the code.
\<close>

lemma sanitize_as_pipeline: "sanitize_filename name = sanitize_pipeline name"
proof (cases "name = []")
  case True
  then show ?thesis
    by (simp add: sanitize_filename_def sanitize_pipeline_def strip_dots_spaces_def
        remove_control_def replace_reserved_def)
next
  case False
  let ?b = "remove_control (strip_dots_spaces (replace_reserved name))"
  show ?thesis
  proof (cases "length ?b > 200")
    case True
    then have "take 200 ?b \<noteq> []" by auto
    with True False show ?thesis
      by (simp add: sanitize_filename_def sanitize_pipeline_def Let_def)
  next
    case short: False
    then have "take 200 ?b = ?b" by simp
    with short False show ?thesis
      by (simp add: sanitize_filename_def sanitize_pipeline_def Let_def)
  qed
qed

text \<open>
  Stripping and deleting commute on a name without a control character at its edge.
\<close>

lemma dropWhile_filter:
  "(\<And>x. P x \<Longrightarrow> Q x) \<Longrightarrow> dropWhile P xs = [] \<or> Q (hd (dropWhile P xs)) \<Longrightarrow>
   dropWhile P (filter Q xs) = filter Q (dropWhile P xs)"
  by (induction xs) auto

lemma dot_space_not_control: "is_dot_or_space c \<Longrightarrow> \<not> is_control c"
  by (auto simp: is_dot_or_space_def is_control_def)

lemma dropWhile_start: "dropWhile P xs = [] \<or> \<not> P (hd (dropWhile P xs))"
  by (induction xs) auto

lemma strip_Nil_iff: "strip_dots_spaces s = [] \<longleftrightarrow> dropWhile is_dot_or_space s = []"
proof
  assume "strip_dots_spaces s = []"
  then have a: "dropWhile is_dot_or_space (rev (dropWhile is_dot_or_space s)) = []"
    by (simp add: strip_dots_spaces_def)
  show "dropWhile is_dot_or_space s = []"
  proof (rule ccontr)
    assume n: "dropWhile is_dot_or_space s \<noteq> []"
    then have "\<not> is_dot_or_space (hd (dropWhile is_dot_or_space s))"
      using dropWhile_start [of is_dot_or_space s] by blast
    moreover from a have "\<forall>x \<in> set (rev (dropWhile is_dot_or_space s)). is_dot_or_space x"
      unfolding dropWhile_eq_Nil_conv .
    ultimately show False using n by (metis hd_in_set set_rev)
  qed
next
  assume e: "dropWhile is_dot_or_space s = []"
  show "strip_dots_spaces s = []"
    unfolding strip_dots_spaces_def e by simp
qed

lemma hd_strip:
  assumes "strip_dots_spaces s \<noteq> []"
  shows "hd (strip_dots_spaces s) = hd (dropWhile is_dot_or_space s)"
proof -
  let ?d = "dropWhile is_dot_or_space s"
  from assms have n: "?d \<noteq> []" by (simp add: strip_Nil_iff)
  then obtain h t where d: "?d = h # t" by (cases ?d) auto
  with dropWhile_start [of is_dot_or_space s] have "\<not> is_dot_or_space h" by simp
  then have "dropWhile is_dot_or_space (rev t @ [h]) = dropWhile is_dot_or_space (rev t) @ [h]"
    by (simp add: dropWhile_append3)
  with d show ?thesis by (simp add: strip_dots_spaces_def)
qed

lemma last_strip:
  "last (strip_dots_spaces s) = hd (dropWhile is_dot_or_space (rev (dropWhile is_dot_or_space s)))"
  by (simp add: strip_dots_spaces_def last_rev)

lemma strip_remove_control:
  assumes "strip_dots_spaces s = [] \<or>
      (\<not> is_control (hd (strip_dots_spaces s)) \<and> \<not> is_control (last (strip_dots_spaces s)))"
  shows "strip_dots_spaces (remove_control s) = remove_control (strip_dots_spaces s)"
proof -
  let ?P = is_dot_or_space and ?Q = "\<lambda>c. \<not> is_control c"
  let ?d = "dropWhile ?P s"
  have first: "?d = [] \<or> ?Q (hd ?d)"
  proof (cases "strip_dots_spaces s = []")
    case True
    then show ?thesis using strip_Nil_iff [of s] by blast
  next
    case False
    with assms hd_strip [OF False] show ?thesis by simp
  qed
  have second: "dropWhile ?P (rev ?d) = [] \<or> ?Q (hd (dropWhile ?P (rev ?d)))"
  proof (cases "strip_dots_spaces s = []")
    case True
    then have "rev (dropWhile ?P (rev ?d)) = []"
      unfolding strip_dots_spaces_def .
    then have "dropWhile ?P (rev ?d) = []"
      by (simp only: rev_is_Nil_conv)
    then show ?thesis by (rule disjI1)
  next
    case False
    with assms have "\<not> is_control (last (strip_dots_spaces s))" by simp
    then show ?thesis unfolding last_strip by simp
  qed
  have "dropWhile ?P (filter ?Q s) = filter ?Q ?d"
    using dropWhile_filter [of ?P ?Q s] dot_space_not_control first by blast
  moreover have "dropWhile ?P (filter ?Q (rev ?d)) = filter ?Q (dropWhile ?P (rev ?d))"
    using dropWhile_filter [of ?P ?Q "rev ?d"] dot_space_not_control second by blast
  ultimately show ?thesis
    by (simp add: strip_dots_spaces_def remove_control_def rev_filter)
qed

lemma replaced_dot_space [simp]:
  "is_dot_or_space (if is_reserved c then 95 else c) = is_dot_or_space c"
  by (auto simp: is_dot_or_space_def is_reserved_def reserved_chars_def)

lemma replaced_control [simp]:
  "is_control (if is_reserved c then 95 else c) = is_control c"
  by (auto simp: is_control_def is_reserved_def reserved_chars_def)

lemma strip_replace_reserved:
  "strip_dots_spaces (replace_reserved s) = replace_reserved (strip_dots_spaces s)"
  by (simp add: strip_dots_spaces_def replace_reserved_def dropWhile_map rev_map comp_def)

lemma edge_replace_reserved:
  assumes "\<not> control_at_edge name"
  shows "strip_dots_spaces (replace_reserved name) = [] \<or>
      (\<not> is_control (hd (strip_dots_spaces (replace_reserved name)))
       \<and> \<not> is_control (last (strip_dots_spaces (replace_reserved name))))"
proof (cases "strip_dots_spaces name = []")
  case True
  then show ?thesis
    unfolding strip_replace_reserved by (simp add: replace_reserved_def)
next
  case False
  with assms have "\<not> is_control (hd (strip_dots_spaces name))"
    "\<not> is_control (last (strip_dots_spaces name))"
    by (simp_all add: control_at_edge_def Let_def)
  with False show ?thesis
    unfolding strip_replace_reserved by (simp add: replace_reserved_def hd_map last_map)
qed

text \<open>
  C8, amended. For every input string in which no control character stands first or last
  once the leading and trailing dots and spaces are set aside, \<open>sanitize_filename\<close> replaces
  each of the characters \<open>< > : " / \ | ? *\<close> by an underscore, deletes (rather than
  replaces) every control character, strips leading and trailing dots and spaces from the
  result, truncates it to 200 characters, and substitutes the placeholder \<open>unnamed\<close> when
  the result is empty. For every input string, no control character is left in the result.
\<close>

theorem sanitize_delete_then_strip:
  "(\<not> control_at_edge name \<longrightarrow> sanitize_filename name = sanitize_amended name)
   \<and> (\<forall>c \<in> set (sanitize_filename name). \<not> is_control c)"
proof -
  have eq: "sanitize_filename name = sanitize_amended name" if "\<not> control_at_edge name"
    using strip_remove_control [OF edge_replace_reserved [OF that]]
    by (simp add: sanitize_as_pipeline sanitize_pipeline_def sanitize_amended_def)
  have "\<not> is_control c" if "c \<in> set (sanitize_filename name)" for c
  proof -
    from that have "c \<in> set (lit ''unnamed'')
        \<or> c \<in> set (remove_control (strip_dots_spaces (replace_reserved name)))"
      by (auto simp: sanitize_as_pipeline sanitize_pipeline_def Let_def split: if_splits
          dest: in_set_takeD)
    then show ?thesis
      by (auto simp: lit_def is_control_def remove_control_def)
  qed
  with eq show ?thesis by blast
qed

theorem sanitize_delete_then_strip_witness:
  "control_at_edge [46, 60, 97, 1, 32, 98, 32] = False
   \<and> sanitize_filename [46, 60, 97, 1, 32, 98, 32] = [95, 97, 32, 98]
   \<and> sanitize_amended [46, 60, 97, 1, 32, 98, 32] = [95, 97, 32, 98]
   \<and> \<not> is_control 95"
proof -
  have e: "\<not> control_at_edge [46, 60, 97, 1, 32, 98, 32]" by code_simp
  have a: "sanitize_amended [46, 60, 97, 1, 32, 98, 32] = [95, 97, 32, 98]" by code_simp
  have c: "\<not> is_control 95" by (simp add: is_control_def)
  from sanitize_delete_then_strip [of "[46, 60, 97, 1, 32, 98, 32]"] e a c show ?thesis
    by simp
qed

text \<open>
  With a control character at the edge the order of the two steps of the code shows: the
  strip runs before the deletion, so dots and spaces that a control character shielded
  from the strip remain, and the name \<open>..\<close> can leave the function.
\<close>

lemma strip_before_delete_leaves_dots:
  "control_at_edge [1, 46, 46, 1]
   \<and> sanitize_filename [1, 46, 46, 1] = [46, 46]
   \<and> sanitize_amended [1, 46, 46, 1] = lit ''unnamed''"
  by code_simp

section \<open>Properties of \<open>get_unique_filepath\<close>\<close>

lemma unique_loop_free: "\<not> path_exists fs (unique_loop fs d b e p c)"
proof (induction fs d b e p c rule: unique_loop.induct)
  case (1 fs d b e p c)
  then show ?case
    by (subst unique_loop.simps) simp
qed

lemma unique_loop_first_free:
  "path_exists fs p \<Longrightarrow>
   \<exists>k\<ge>c. unique_loop fs d b e p c = numbered_name d b e k
        \<and> (\<forall>j. c \<le> j \<and> j < k \<longrightarrow> path_exists fs (numbered_name d b e j))"
proof (induction fs d b e p c rule: unique_loop.induct)
  case (1 fs d b e p c)
  let ?n = "numbered_name d b e c"
  from "1.prems" have step: "unique_loop fs d b e p c = unique_loop fs d b e ?n (c + 1)"
    by (subst unique_loop.simps) simp
  show ?case
  proof (cases "path_exists fs ?n")
    case True
    with "1.IH" "1.prems" obtain k where k: "c + 1 \<le> k"
      "unique_loop fs d b e ?n (c + 1) = numbered_name d b e k"
      "\<forall>j. c + 1 \<le> j \<and> j < k \<longrightarrow> path_exists fs (numbered_name d b e j)"
      by blast
    have "\<forall>j. c \<le> j \<and> j < k \<longrightarrow> path_exists fs (numbered_name d b e j)"
    proof (intro allI impI)
      fix j assume "c \<le> j \<and> j < k"
      then have "j = c \<or> (c + 1 \<le> j \<and> j < k)" by auto
      with True k(3) show "path_exists fs (numbered_name d b e j)" by blast
    qed
    with k step show ?thesis
      by (intro exI [of _ k]) simp
  next
    case False
    then have "unique_loop fs d b e ?n (c + 1) = ?n"
      by (subst unique_loop.simps) simp
    with step show ?thesis
      by (intro exI [of _ c]) auto
  qed
qed

lemma unique_path_free: "\<not> path_exists fs (get_unique_filepath fs d b e)"
  using unique_loop_free [of fs d b e "plain_name d b e" 1]
  by (simp add: get_unique_filepath_def Let_def)

text \<open>
  C9. For every (finite) directory state, base name and extension, \<open>get_unique_filepath\<close>
  returns a path that does not exist in that state. When the plain name is free it is
  returned; when it exists, the result is the numbered name \<open>base_k.ext\<close> for the first
  \<open>k = 1, 2, ...\<close> whose path is free, all smaller numbers being taken.
\<close>

theorem get_unique_filepath_free:
  "\<not> path_exists fs (get_unique_filepath fs d b e)
   \<and> (\<not> path_exists fs (plain_name d b e) \<longrightarrow> get_unique_filepath fs d b e = plain_name d b e)
   \<and> (path_exists fs (plain_name d b e) \<longrightarrow>
        (\<exists>k\<ge>1. get_unique_filepath fs d b e = numbered_name d b e k
           \<and> (\<forall>j. 1 \<le> j \<and> j < k \<longrightarrow> path_exists fs (numbered_name d b e j))))"
proof (cases "path_exists fs (plain_name d b e)")
  case True
  then have g: "get_unique_filepath fs d b e = unique_loop fs d b e (plain_name d b e) 1"
    by (simp add: get_unique_filepath_def)
  from unique_loop_first_free [OF True, of 1 d b e] unique_loop_free [of fs d b e "plain_name d b e" 1]
  show ?thesis
    unfolding g using True by simp
next
  case False
  then show ?thesis
    by (simp add: get_unique_filepath_def)
qed

theorem get_unique_filepath_free_witness:
  "path_exists [(lit ''d/a.webm'', [1]), (lit ''d/a_1.webm'', [2])] (plain_name (lit ''d'') (lit ''a'') (lit ''.webm''))
   \<and> get_unique_filepath [(lit ''d/a.webm'', [1]), (lit ''d/a_1.webm'', [2])] (lit ''d'') (lit ''a'') (lit ''.webm'')
       = lit ''d/a_2.webm''
   \<and> numbered_name (lit ''d'') (lit ''a'') (lit ''.webm'') 2 = lit ''d/a_2.webm''
   \<and> \<not> path_exists [(lit ''d/a.webm'', [1]), (lit ''d/a_1.webm'', [2])] (lit ''d/a_2.webm'')"
proof -
  let ?fs = "[(lit ''d/a.webm'', [1]), (lit ''d/a_1.webm'', [2::8 word])]"
  have a: "path_exists ?fs (plain_name (lit ''d'') (lit ''a'') (lit ''.webm''))"
    by code_simp
  have b: "get_unique_filepath ?fs (lit ''d'') (lit ''a'') (lit ''.webm'') = lit ''d/a_2.webm''"
    by code_simp
  have c: "numbered_name (lit ''d'') (lit ''a'') (lit ''.webm'') 2 = lit ''d/a_2.webm''"
    by code_simp
  from get_unique_filepath_free [of ?fs "lit ''d''" "lit ''a''" "lit ''.webm''"] a b c
  show ?thesis by simp
qed

section \<open>Properties of the file operations\<close>

lemma path_exists_dom: "path_exists fs p \<longleftrightarrow> p \<in> dom (map_of fs)"
  by (auto simp: path_exists_def)


lemma map_of_other_writer: "map_of (other_writer fs p c) = (map_of fs)(p \<mapsto> c)"
  by (simp add: other_writer_def update_conv')





lemma target_path_free: "\<not> path_exists fs (target_path d w fs)"
  using unique_path_free by (simp add: target_path_def Let_def)

section \<open>The requests of one iteration\<close>

lemma requested_unexpected [simp]: "requested (unexpected fs fn reqs es) = reqs"
  by (simp add: unexpected_def)

lemma requested_request_failed [simp]: "requested (request_failed k e env p fs fn u) = [u]"
  by (simp add: request_failed_def split: option.splits)

lemma requested_store_response [simp]:
  "requested (store_response env p u cl chunks fin fs fn) = [u]"
  by (simp add: store_response_def Let_def split: stream_end.splits)

lemma requested_attempt_download [simp]:
  "requested (attempt_download env p t fs fn) = [file_url t]"
  by (simp add: attempt_download_def Let_def split: response.splits)

lemma requested_iteration:
  "requested (webm_iteration d env w fs fn) = [] \<or>
   (\<exists>t. post_tim w = Some t \<and> t \<noteq> 0 \<and> requested (webm_iteration d env w fs fn) = [file_url t])"
  by (auto simp: webm_iteration_def Let_def no_tim_def split: option.splits)

lemma falsy_tim_iteration:
  "post_tim w = None \<or> post_tim w = Some 0 \<Longrightarrow>
   requested (webm_iteration d env w fs fn) = []
   \<and> files_after (webm_iteration d env w fs fn) = race_before_check env fs (target_path d w fs)"
  by (auto simp: webm_iteration_def Let_def no_tim_def)

lemma target_path_tim [simp]: "target_path d (w\<lparr>post_tim := x\<rparr>) fs = target_path d w fs"
  by (simp add: target_path_def)

lemma zero_like_absent:
  "webm_iteration d env (w\<lparr>post_tim := Some 0\<rparr>) fs fn = webm_iteration d env (w\<lparr>post_tim := None\<rparr>) fs fn"
  by (simp add: webm_iteration_def Let_def)

lemma requests_webm_loop:
  "subseq (requests (webm_loop d envs i ws fs fn)) (map file_url (remote_ids ws))"
proof (induction ws arbitrary: i fs fn)
  case Nil
  then show ?case by simp
next
  case (Cons w ws)
  let ?st = "webm_iteration d (envs i) w fs fn"
  let ?r = "webm_loop d envs (Suc i) ws (files_after ?st) (filename_after ?st)"
  have ih: "subseq (requests ?r) (map file_url (remote_ids ws))"
    by (rule Cons.IH)
  from requested_iteration [of d "envs i" w fs fn] show ?case
  proof
    assume e: "requested ?st = []"
    have "subseq (requests ?r) (map file_url (remote_ids (w # ws)))"
      using ih by (auto split: option.splits intro: subseq_Cons')
    with e show ?thesis by (simp add: Let_def)
  next
    assume "\<exists>t. post_tim w = Some t \<and> t \<noteq> 0 \<and> requested ?st = [file_url t]"
    then obtain t where t: "post_tim w = Some t" "t \<noteq> 0" "requested ?st = [file_url t]"
      by blast
    with ih show ?thesis by (simp add: Let_def)
  qed
qed

lemma requests_download_webms:
  "subseq (requests (download_webms td title lenv fs)) (map file_url (remote_ids (filter is_webm td)))"
  using requests_webm_loop [of "sanitize_filename title" "attempts lenv" 0 "filter is_webm td" fs None]
  by (cases "makedirs lenv") (simp_all add: download_webms_def Let_def)

section \<open>Posts without a usable remote id\<close>

text \<open>
  C10. A post whose \<open>tim\<close> is present but falsy (the integer 0) is treated exactly like a
  post without \<open>tim\<close>: the iteration issues no request, its outcome is not a download, and
  it leaves the filesystem as it found it (apart from what another writer did to it).
  Over a whole listing, the requests issued are, in order, among those for the posts
  with the accepted extension whose \<open>tim\<close> is present and nonzero.
\<close>

theorem falsy_remote_id_dropped:
  "(post_tim w = None \<or> post_tim w = Some 0 \<longrightarrow>
      requested (webm_iteration d env w fs fn) = []
      \<and> outcome (webm_iteration d env w fs fn) \<in> {NoRemoteId, Skipped (target_path d w fs)}
      \<and> files_after (webm_iteration d env w fs fn) = race_before_check env fs (target_path d w fs))
   \<and> webm_iteration d env (w\<lparr>post_tim := Some 0\<rparr>) fs fn
       = webm_iteration d env (w\<lparr>post_tim := None\<rparr>) fs fn
   \<and> subseq (requests (download_webms thread_data title lenv fs))
         (map file_url (remote_ids (filter is_webm thread_data)))"
proof -
  have "outcome (webm_iteration d env w fs fn) \<in> {NoRemoteId, Skipped (target_path d w fs)}"
    if "post_tim w = None \<or> post_tim w = Some 0"
    using that by (auto simp: webm_iteration_def Let_def no_tim_def)
  then show ?thesis
    using falsy_tim_iteration [of w d env fs fn] zero_like_absent [of d env w fs fn]
      requests_download_webms [of thread_data title lenv fs]
    by blast
qed

theorem falsy_remote_id_dropped_witness:
  "post_tim (webm_post (Some 0)) = Some 0
   \<and> requested (webm_iteration (lit ''T'') quiet (webm_post (Some 0)) [] None) = []
   \<and> outcome (webm_iteration (lit ''T'') quiet (webm_post (Some 0)) [] None) = NoRemoteId
   \<and> files_after (webm_iteration (lit ''T'') quiet (webm_post (Some 0)) [] None) = []
   \<and> remote_ids (filter is_webm [webm_post (Some 0), webm_post (Some 7)]) = [7]
   \<and> requests (download_webms [webm_post (Some 0), webm_post (Some 7)] (lit ''T'') calm [])
       = [file_url 7]"
proof -
  have t: "post_tim (webm_post (Some 0)) = Some 0" by (simp add: webm_post_def)
  have o: "outcome (webm_iteration (lit ''T'') quiet (webm_post (Some 0)) [] None) = NoRemoteId"
    by code_simp
  have b: "race_before_check quiet [] (target_path (lit ''T'') (webm_post (Some 0)) []) = []"
    by (simp add: race_before_check_def quiet_def)
  have i: "remote_ids (filter is_webm [webm_post (Some 0), webm_post (Some 7)]) = [7]"
    by code_simp
  have q: "requests (download_webms [webm_post (Some 0), webm_post (Some 7)] (lit ''T'') calm [])
       = [file_url 7]"
    by code_simp
  from falsy_remote_id_dropped [of "webm_post (Some 0)" "lit ''T''" quiet "[]" None
      "[webm_post (Some 0), webm_post (Some 7)]" "lit ''T''" calm] t o b i q
  show ?thesis by simp
qed

section \<open>Collision at the exclusive creation\<close>

lemma store_response_collision:
  "cl \<noteq> HeaderUnparsable \<Longrightarrow> path_exists fs p \<Longrightarrow>
   store_response env p u cl chunks fin fs fn =
     \<lparr>outcome = Skipped p, files_after = fs, filename_after = Some (basename p),
      requested = [u], logged = [DebugCreatedByOther p]\<rparr>"
  by (simp add: store_response_def Let_def)

lemma path_exists_other_writer: "path_exists (other_writer fs p c) p"
  by (simp add: path_exists_def map_of_other_writer)

text \<open>
  C5. When another writer has created the chosen path after the name was chosen and the
  existence check was passed, so that the exclusive creation fails, the outcome is
  \<open>Skipped\<close>, not \<open>Failed\<close>, and the filesystem is exactly what the other writer left: the
  content at that path is the other writer's, and nothing else has changed.
\<close>

theorem exclusive_create_collision_skipped:
  assumes "race env = RaceAfterCheck content"
    and "post_tim w = Some t" and "t \<noteq> 0"
    and "response env = Response cl chunks fin" and "cl \<noteq> HeaderUnparsable"
  shows "outcome (webm_iteration d env w fs fn) = Skipped (target_path d w fs)
    \<and> files_after (webm_iteration d env w fs fn) = other_writer fs (target_path d w fs) content
    \<and> map_of (files_after (webm_iteration d env w fs fn))
        = (map_of fs)(target_path d w fs \<mapsto> content)
    \<and> logged (webm_iteration d env w fs fn) = [DebugCreatedByOther (target_path d w fs)]"
proof -
  let ?p = "target_path d w fs"
  have before: "race_before_check env fs ?p = fs"
    using assms(1) by (simp add: race_before_check_def)
  have after: "race_after_check env fs ?p = other_writer fs ?p content"
    using assms(1) by (simp add: race_after_check_def)
  have free: "\<not> path_exists fs ?p"
    by (rule target_path_free)
  have "webm_iteration d env w fs fn = attempt_download env ?p t (other_writer fs ?p content) fn"
    using assms(2,3) before after free by (simp add: webm_iteration_def Let_def)
  also have "\<dots> = store_response env ?p (file_url t) cl chunks fin (other_writer fs ?p content) fn"
    using assms(4) by (simp add: attempt_download_def Let_def)
  also have "\<dots> = \<lparr>outcome = Skipped ?p, files_after = other_writer fs ?p content,
      filename_after = Some (basename ?p), requested = [file_url t],
      logged = [DebugCreatedByOther ?p]\<rparr>"
    using assms(5) by (simp add: store_response_collision path_exists_other_writer)
  finally show ?thesis
    by (simp add: map_of_other_writer)
qed

theorem exclusive_create_collision_skipped_witness:
  "race racing = RaceAfterCheck [9, 9]
   \<and> post_tim (webm_post (Some 7)) = Some 7
   \<and> response racing = Response (HeaderInt 3) [[1, 2], [], [3]] Exhausted
   \<and> target_path (lit ''T'') (webm_post (Some 7)) [] = lit ''T/a.webm''
   \<and> outcome (webm_iteration (lit ''T'') racing (webm_post (Some 7)) [] None) = Skipped (lit ''T/a.webm'')
   \<and> files_after (webm_iteration (lit ''T'') racing (webm_post (Some 7)) [] None) = [(lit ''T/a.webm'', [9, 9])]"
proof -
  have r: "race racing = RaceAfterCheck [9, 9]" by (simp add: racing_def)
  have t: "post_tim (webm_post (Some 7)) = Some 7" by (simp add: webm_post_def)
  have z: "(7::int) \<noteq> 0" by simp
  have s: "response racing = Response (HeaderInt 3) [[1, 2], [], [3]] Exhausted"
    by (simp add: racing_def)
  have h: "HeaderInt 3 \<noteq> HeaderUnparsable" by simp
  have p: "target_path (lit ''T'') (webm_post (Some 7)) [] = lit ''T/a.webm''"
    by code_simp
  have o: "other_writer [] (lit ''T/a.webm'') [9, 9] = [(lit ''T/a.webm'', [9, 9])]"
    by (simp add: other_writer_def)
  from exclusive_create_collision_skipped [OF r t z s h, of "lit ''T''" "[]" None] r t s p o
  show ?thesis by simp
qed

section \<open>Failures while streaming\<close>






text \<open>
  Two paths that end in the handler \<open>except Exception\<close>, which attempts no clean-up. An
  \<open>OSError\<close> of \<open>f.write\<close> leaves the partial file in place. A timeout of the first request
  of a listing (raised by \<open>requests.get\<close>, before any streaming) finds \<open>filename\<close> unbound: the handler for \<open>Timeout\<close> logs its error, fails at
  its \<open>print\<close>, and the iteration ends with a second log entry.
\<close>

lemma write_error_leaves_partial_file:
  "outcome (webm_iteration (lit ''T'') disk_full (webm_post (Some 7)) [] None) = Failed UnexpectedError
   \<and> files_after (webm_iteration (lit ''T'') disk_full (webm_post (Some 7)) [] None)
       = [(lit ''T/a.webm'', [1, 2])]"
  by code_simp

lemma first_request_timeout_unbound_filename:
  "outcome (webm_iteration (lit ''T'') unreachable (webm_post (Some 7)) [] None) = Failed UnexpectedError
   \<and> logged (webm_iteration (lit ''T'') unreachable (webm_post (Some 7)) [] None)
       = [ErrorTimeout (file_url 7), ErrorUnexpected]
   \<and> outcome (webm_iteration (lit ''T'') unreachable (webm_post (Some 7)) [] (Some (lit ''b.webm'')))
       = Failed TimeoutError"
  by code_simp

section \<open>One outcome per task\<close>

lemma terminal_unexpected [simp]: "is_terminal (outcome (unexpected fs fn reqs es))"
  by (simp add: unexpected_def)

lemma terminal_request_failed [simp]: "is_terminal (outcome (request_failed k e env p fs fn u))"
  by (simp add: request_failed_def split: option.splits)

lemma terminal_store_response [simp]:
  "is_terminal (outcome (store_response env p u cl chunks fin fs fn))"
  by (simp add: store_response_def Let_def split: stream_end.splits)

lemma terminal_attempt_download [simp]: "is_terminal (outcome (attempt_download env p t fs fn))"
  by (simp add: attempt_download_def Let_def split: response.splits)

lemma terminal_iteration:
  "truthy_tim w \<Longrightarrow> is_terminal (outcome (webm_iteration d env w fs fn))"
  by (auto simp: truthy_tim_def webm_iteration_def Let_def split: option.splits)

lemma length_outcomes_loop: "length (outcomes (webm_loop d envs i ws fs fn)) = length ws"
  by (induction ws arbitrary: i fs fn) (simp_all add: Let_def)

lemma terminal_loop:
  "k < length ws \<Longrightarrow> truthy_tim (ws ! k) \<Longrightarrow>
   is_terminal (outcomes (webm_loop d envs i ws fs fn) ! k)"
proof (induction ws arbitrary: i fs fn k)
  case Nil
  then show ?case by simp
next
  case (Cons w ws)
  show ?case
  proof (cases k)
    case 0
    with Cons.prems show ?thesis
      by (simp add: Let_def terminal_iteration)
  next
    case (Suc m)
    with Cons.prems have "m < length ws" "truthy_tim (ws ! m)" by simp_all
    from Cons.IH [OF this] Suc show ?thesis
      by (simp add: Let_def)
  qed
qed

text \<open>
  C4 as stated: every post with the accepted extension and a present remote id gets exactly
  one of the outcomes \<open>Downloaded\<close>, \<open>Skipped\<close>, \<open>Failed\<close>. It does not: a post whose remote id
  is present and 0 leaves the loop body without any of them, and when the directory of the
  listing cannot be created no post gets an outcome at all.
\<close>

theorem no_outcome_counterexample:
  "is_webm (webm_post (Some 0))
   \<and> post_tim (webm_post (Some 0)) = Some 0
   \<and> outcomes (download_webms [webm_post (Some 0)] (lit ''T'') calm []) = [NoRemoteId]
   \<and> \<not> is_terminal NoRemoteId
   \<and> is_webm (webm_post (Some 7))
   \<and> post_tim (webm_post (Some 7)) = Some 7
   \<and> outcomes (download_webms [webm_post (Some 7)] (lit ''T'') (calm\<lparr>makedirs := MakedirsOSError\<rparr>) []) = []"
  by code_simp


text \<open>
  C4, amended. When the directory of the listing has been created, the loop produces exactly
  one outcome per post with the accepted extension, in order; for every such post whose
  remote id is present and nonzero that outcome is one of \<open>Downloaded\<close>, \<open>Skipped\<close> and
  \<open>Failed\<close>; and at most one request is issued per such post, in order, so that nothing is
  tried a second time.
\<close>

theorem one_outcome_per_task:
  assumes "makedirs lenv = MakedirsCreated"
  shows "length (outcomes (download_webms thread_data title lenv fs))
           = length (filter is_webm thread_data)
    \<and> (\<forall>k < length (filter is_webm thread_data).
          truthy_tim (filter is_webm thread_data ! k) \<longrightarrow>
          is_terminal (outcomes (download_webms thread_data title lenv fs) ! k))
    \<and> subseq (requests (download_webms thread_data title lenv fs))
         (map file_url (remote_ids (filter is_webm thread_data)))"
proof -
  let ?webms = "filter is_webm thread_data"
  show ?thesis
  proof (cases "?webms = []")
    case True
    then show ?thesis by (simp add: download_webms_def)
  next
    case False
    let ?r = "webm_loop (sanitize_filename title) (attempts lenv) 0 ?webms fs None"
    from False assms have o: "outcomes (download_webms thread_data title lenv fs) = outcomes ?r"
      by (simp add: download_webms_def Let_def)
    have l: "length (outcomes ?r) = length ?webms"
      by (rule length_outcomes_loop)
    have t: "\<forall>k < length ?webms. truthy_tim (?webms ! k) \<longrightarrow> is_terminal (outcomes ?r ! k)"
      using terminal_loop by blast
    from o l t requests_download_webms [of thread_data title lenv fs] show ?thesis
      by simp
  qed
qed

theorem one_outcome_per_task_witness:
  "makedirs calm = MakedirsCreated
   \<and> filter is_webm [webm_post (Some 0), webm_post (Some 7)] = [webm_post (Some 0), webm_post (Some 7)]
   \<and> truthy_tim (webm_post (Some 7))
   \<and> outcomes (download_webms [webm_post (Some 0), webm_post (Some 7)] (lit ''T'') calm [])
       = [NoRemoteId, Downloaded (lit ''T/a.webm'')]
   \<and> is_terminal (outcomes (download_webms [webm_post (Some 0), webm_post (Some 7)] (lit ''T'') calm []) ! 1)
   \<and> requests (download_webms [webm_post (Some 0), webm_post (Some 7)] (lit ''T'') calm []) = [file_url 7]"
proof -
  let ?td = "[webm_post (Some 0), webm_post (Some 7)]"
  have m: "makedirs calm = MakedirsCreated" by (simp add: calm_def)
  have f: "filter is_webm ?td = ?td" by code_simp
  have tr: "truthy_tim (webm_post (Some 7))" by code_simp
  have o: "outcomes (download_webms ?td (lit ''T'') calm []) = [NoRemoteId, Downloaded (lit ''T/a.webm'')]"
    by code_simp
  have q: "requests (download_webms ?td (lit ''T'') calm []) = [file_url 7]"
    by code_simp
  from one_outcome_per_task [OF m, of ?td "lit ''T''" "[]"] m f tr o q
  show ?thesis by simp
qed

section \<open>The loop over the fetched listings\<close>

lemma append_batch_assoc: "append_batch (append_batch a b) c = append_batch a (append_batch b c)"
  by (simp add: append_batch_def)

lemma batch_files_append [simp]: "batch_files (append_batch b d) = batch_files d"
  by (simp add: append_batch_def)

lemma batch_files_start [simp]: "batch_files (start fs) = fs"
  by (simp add: start_def)

lemma process_future_from_start:
  "process_future j b = append_batch b (process_future j (start (batch_files b)))"
  by (cases "fetched j")
    (simp_all add: process_future_def append_batch_def start_def Let_def split: completion.splits)

lemma process_futures_from_start:
  "process_futures js b = append_batch b (process_futures js (start (batch_files b)))"
proof (induction js arbitrary: b)
  case Nil
  show ?case by (simp add: append_batch_def start_def)
next
  case (Cons j js)
  let ?fs = "batch_files b"
  let ?d = "process_future j (start ?fs)"
  have f: "batch_files (process_future j b) = batch_files ?d"
    by (subst process_future_from_start) simp
  have "process_futures (j # js) b = process_futures js (process_future j b)"
    by simp
  also have "\<dots> = append_batch (process_future j b)
      (process_futures js (start (batch_files ?d)))"
    by (subst Cons.IH) (simp add: f)
  also have "\<dots> = append_batch b (append_batch ?d (process_futures js (start (batch_files ?d))))"
    by (subst process_future_from_start) (simp add: append_batch_assoc)
  also have "append_batch ?d (process_futures js (start (batch_files ?d))) = process_futures js ?d"
    by (rule Cons.IH [symmetric])
  finally show ?case by simp
qed

lemma process_futures_append:
  "process_futures (xs @ ys) b = process_futures ys (process_futures xs b)"
  by (induction xs arbitrary: b) simp_all

lemma report_process_future:
  "map fst (report (process_future j b)) = map fst (report b) @ [thread_id j]"
  by (cases "fetched j") (simp_all add: process_future_def Let_def split: completion.splits)

lemma report_process_futures:
  "map fst (report (process_futures js b)) = map fst (report b) @ map thread_id js"
  by (induction js arbitrary: b) (simp_all add: report_process_future)

lemma errored_step:
  "fetched j = Inl e \<Longrightarrow>
   process_future j b =
     b\<lparr>report := report b @ [(thread_id j, Errored e)],
       failed_downloads := failed_downloads b + 1,
       batch_log := batch_log b @ [ErrorProcessingThread (thread_title j) (thread_id j)]\<rparr>"
  by (simp add: process_future_def)

text \<open>
  C2. When the fetch of a listing \<open>L\<close> fails, with whatever error, its iteration adds one
  \<open>Errored\<close> entry for \<open>L\<close> to the report, counts one failure and changes nothing else: no
  file, no request, no \<open>Done\<close> entry. Every job of the batch, before and after \<open>L\<close>, still
  gets its entry, and those entries, the files, the requests and the count of successes
  are the ones of the same batch without \<open>L\<close>.
\<close>

theorem failed_fetch_isolated:
  assumes "fetched L = Inl e"
  shows "process_future L b =
       b\<lparr>report := report b @ [(thread_id L, Errored e)],
         failed_downloads := failed_downloads b + 1,
         batch_log := batch_log b @ [ErrorProcessingThread (thread_title L) (thread_id L)]\<rparr>
    \<and> map fst (report (process_futures (xs @ [L] @ ys) b))
        = map fst (report b) @ map thread_id (xs @ [L] @ ys)
    \<and> (\<exists>before after.
          report (process_futures (xs @ ys) b) = before @ after
          \<and> report (process_futures (xs @ [L] @ ys) b) = before @ [(thread_id L, Errored e)] @ after
          \<and> length before = length (report b) + length xs)
    \<and> batch_files (process_futures (xs @ [L] @ ys) b) = batch_files (process_futures (xs @ ys) b)
    \<and> batch_requests (process_futures (xs @ [L] @ ys) b)
        = batch_requests (process_futures (xs @ ys) b)
    \<and> successful_downloads (process_futures (xs @ [L] @ ys) b)
        = successful_downloads (process_futures (xs @ ys) b)
    \<and> failed_downloads (process_futures (xs @ [L] @ ys) b)
        = failed_downloads (process_futures (xs @ ys) b) + 1"
proof -
  let ?c = "process_futures xs b"
  let ?c' = "process_future L ?c"
  let ?d = "process_futures ys (start (batch_files ?c))"
  have step: "?c' = ?c\<lparr>report := report ?c @ [(thread_id L, Errored e)],
         failed_downloads := failed_downloads ?c + 1,
         batch_log := batch_log ?c @ [ErrorProcessingThread (thread_title L) (thread_id L)]\<rparr>"
    using assms by (rule errored_step)
  have files: "batch_files ?c' = batch_files ?c"
    by (subst step) simp
  have with_L: "process_futures (xs @ [L] @ ys) b = append_batch ?c' ?d"
    using process_futures_from_start [of ys ?c'] by (simp add: process_futures_append files)
  have without_L: "process_futures (xs @ ys) b = append_batch ?c ?d"
    using process_futures_from_start [of ys ?c] by (simp add: process_futures_append)
  have len: "length (report ?c) = length (report b) + length xs"
    using report_process_futures [of xs b, THEN arg_cong, of length] by simp
  have reports: "\<exists>before after.
          report (process_futures (xs @ ys) b) = before @ after
          \<and> report (process_futures (xs @ [L] @ ys) b) = before @ [(thread_id L, Errored e)] @ after
          \<and> length before = length (report b) + length xs"
  proof (intro exI conjI)
    show "report (process_futures (xs @ ys) b) = report ?c @ report ?d"
      by (simp add: without_L append_batch_def)
    show "report (process_futures (xs @ [L] @ ys) b) = report ?c @ [(thread_id L, Errored e)] @ report ?d"
      unfolding with_L by (subst step) (simp add: append_batch_def)
    show "length (report ?c) = length (report b) + length xs"
      by (rule len)
  qed
  have rest: "batch_files (process_futures (xs @ [L] @ ys) b) = batch_files (process_futures (xs @ ys) b)"
    "batch_requests (process_futures (xs @ [L] @ ys) b) = batch_requests (process_futures (xs @ ys) b)"
    "successful_downloads (process_futures (xs @ [L] @ ys) b) = successful_downloads (process_futures (xs @ ys) b)"
    "failed_downloads (process_futures (xs @ [L] @ ys) b) = failed_downloads (process_futures (xs @ ys) b) + 1"
    unfolding with_L without_L by (subst step, simp add: append_batch_def)+
  from errored_step [OF assms, of b] report_process_futures [of "xs @ [L] @ ys" b] reports rest
  show ?thesis by blast
qed

theorem failed_fetch_isolated_witness:
  "fetched (failed_job 2) = Inl FetchTimeout
   \<and> report (process_futures [fetched_job 1 (lit ''T'') calm, failed_job 2, fetched_job 3 (lit ''V'') calm] (start []))
       = [(1, Done [Downloaded (lit ''T/a.webm'')]), (2, Errored FetchTimeout),
          (3, Done [Downloaded (lit ''V/a.webm'')])]
   \<and> report (process_futures [fetched_job 1 (lit ''T'') calm, fetched_job 3 (lit ''V'') calm] (start []))
       = [(1, Done [Downloaded (lit ''T/a.webm'')]), (3, Done [Downloaded (lit ''V/a.webm'')])]
   \<and> failed_downloads (process_futures [fetched_job 1 (lit ''T'') calm, failed_job 2, fetched_job 3 (lit ''V'') calm] (start [])) = 1
   \<and> successful_downloads (process_futures [fetched_job 1 (lit ''T'') calm, failed_job 2, fetched_job 3 (lit ''V'') calm] (start [])) = 2
   \<and> batch_files (process_futures [fetched_job 1 (lit ''T'') calm, failed_job 2, fetched_job 3 (lit ''V'') calm] (start []))
       = [(lit ''T/a.webm'', [1, 2, 3]), (lit ''V/a.webm'', [1, 2, 3])]"
proof -
  let ?with = "process_futures [fetched_job 1 (lit ''T'') calm, failed_job 2, fetched_job 3 (lit ''V'') calm] (start [])"
  let ?without = "process_futures [fetched_job 1 (lit ''T'') calm, fetched_job 3 (lit ''V'') calm] (start [])"
  have h: "fetched (failed_job 2) = Inl FetchTimeout" by (simp add: failed_job_def)
  have r: "report ?with = [(1, Done [Downloaded (lit ''T/a.webm'')]), (2, Errored FetchTimeout),
          (3, Done [Downloaded (lit ''V/a.webm'')])]"
    by code_simp
  have r': "report ?without
       = [(1, Done [Downloaded (lit ''T/a.webm'')]), (3, Done [Downloaded (lit ''V/a.webm'')])]"
    by code_simp
  have f: "failed_downloads ?without = 0" by code_simp
  have s: "successful_downloads ?without = 2" by code_simp
  have fs: "batch_files ?without = [(lit ''T/a.webm'', [1, 2, 3]), (lit ''V/a.webm'', [1, 2, 3])]"
    by code_simp
  from failed_fetch_isolated [OF h, of "start []" "[fetched_job 1 (lit ''T'') calm]"
      "[fetched_job 3 (lit ''V'') calm]"] h r r' f s fs
  show ?thesis by simp
qed

section \<open>The summary\<close>

lemma ending_download_webms:
  "ending (download_webms thread_data title lenv fs)
     = (if processing_raises thread_data lenv then Raised else Returned)"
proof -
  have "ending (webm_loop d envs i ws fs' fn) = Returned" for d envs i ws fs' fn
    by (induction ws arbitrary: i fs' fn) (simp_all add: Let_def)
  then show ?thesis
    by (cases "makedirs lenv") (simp_all add: download_webms_def processing_raises_def Let_def)
qed

lemma counted_process_future:
  "successful_downloads (process_future j b)
     = successful_downloads b + (if counted_successful j then 1 else 0)
   \<and> failed_downloads (process_future j b)
     = failed_downloads b + (if counted_successful j then 0 else 1)"
  by (cases "fetched j")
    (simp_all add: process_future_def counted_successful_def ending_download_webms Let_def)

lemma counters_process_futures:
  "successful_downloads (process_futures js b)
     = successful_downloads b + length (filter counted_successful js)
   \<and> failed_downloads (process_futures js b)
     = failed_downloads b + length (filter (\<lambda>j. \<not> counted_successful j) js)"
proof (induction js arbitrary: b)
  case Nil
  show ?case by simp
next
  case (Cons j js)
  show ?case
    using counted_process_future [of j b] by (simp add: Cons.IH)
qed

text \<open>
  C6 as stated: failures of attachments leave the listing counted as succeeded unless every
  attachment of the listing failed. The code has no such exception: a fetched listing whose
  only attachment failed is reported as done and counted as a success, not as an error.
\<close>

theorem all_attachments_failed_counterexample:
  "report (run_batch [fetched_job 1 (lit ''T'') dropped] []) = [(1, Done [Failed RequestError])]
   \<and> successful_downloads (run_batch [fetched_job 1 (lit ''T'') dropped] []) = 1
   \<and> failed_downloads (run_batch [fetched_job 1 (lit ''T'') dropped] []) = 0
   \<and> batch_log (run_batch [fetched_job 1 (lit ''T'') dropped] [])
       = [InfoProcessingThread (lit ''T'') 1, InfoDownloading 1 (lit ''T''),
          ErrorDownloading (file_url 7), InfoSessionCompleted 1 0]"
  by code_simp

text \<open>
  C6, amended. The summary reports the number of listings that were fetched and processed
  without an exception, and the number of listings whose fetch or whose processing raised
  one. A fetched listing whose processing raises no exception counts as succeeded whatever
  the outcomes of its attachments are, also when every one of them failed; failures of
  attachments never raise. A fetched listing counts as an error only when an exception
  leaves \<open>download_webms\<close>, which happens when \<open>os.makedirs\<close> raises something other than
  an \<open>OSError\<close>.
\<close>

theorem fetched_listing_counts_as_succeeded:
  "(fetched j = Inr thread_data \<and> \<not> processing_raises thread_data (world j) \<longrightarrow>
      successful_downloads (process_future j b) = successful_downloads b + 1
      \<and> failed_downloads (process_future j b) = failed_downloads b
      \<and> report (process_future j b) = report b @
          [(thread_id j,
            Done (outcomes (download_webms thread_data (thread_title j) (world j) (batch_files b))))])
   \<and> (fetched j = Inr thread_data \<and> processing_raises thread_data (world j) \<longrightarrow>
      successful_downloads (process_future j b) = successful_downloads b
      \<and> failed_downloads (process_future j b) = failed_downloads b + 1
      \<and> report (process_future j b) = report b @ [(thread_id j, Aborted)])
   \<and> successful_downloads (run_batch jobs fs) = length (filter counted_successful jobs)
   \<and> failed_downloads (run_batch jobs fs) = length (filter (\<lambda>j. \<not> counted_successful j) jobs)
   \<and> last (batch_log (run_batch jobs fs))
       = InfoSessionCompleted (length (filter counted_successful jobs))
           (length (filter (\<lambda>j. \<not> counted_successful j) jobs))"
proof -
  have one: "fetched j = Inr thread_data \<and> \<not> processing_raises thread_data (world j) \<longrightarrow>
      successful_downloads (process_future j b) = successful_downloads b + 1
      \<and> failed_downloads (process_future j b) = failed_downloads b
      \<and> report (process_future j b) = report b @
          [(thread_id j,
            Done (outcomes (download_webms thread_data (thread_title j) (world j) (batch_files b))))]"
    by (simp add: process_future_def ending_download_webms Let_def)
  have two: "fetched j = Inr thread_data \<and> processing_raises thread_data (world j) \<longrightarrow>
      successful_downloads (process_future j b) = successful_downloads b
      \<and> failed_downloads (process_future j b) = failed_downloads b + 1
      \<and> report (process_future j b) = report b @ [(thread_id j, Aborted)]"
    by (simp add: process_future_def ending_download_webms Let_def)
  have s: "successful_downloads (process_futures jobs (start fs))
      = length (filter counted_successful jobs)"
    using counters_process_futures [of jobs "start fs"] by (simp add: start_def)
  have f: "failed_downloads (process_futures jobs (start fs))
      = length (filter (\<lambda>j. \<not> counted_successful j) jobs)"
    using counters_process_futures [of jobs "start fs"] by (simp add: start_def)
  from one two s f show ?thesis
    by (simp add: run_batch_def Let_def)
qed

theorem fetched_listing_counts_as_succeeded_witness:
  "fetched (fetched_job 1 (lit ''T'') dropped) = Inr [webm_post (Some 7)]
   \<and> processing_raises [webm_post (Some 7)] dropped = False
   \<and> report (process_future (fetched_job 1 (lit ''T'') dropped) (start []))
       = [(1, Done [Failed RequestError])]
   \<and> successful_downloads (process_future (fetched_job 1 (lit ''T'') dropped) (start [])) = 1
   \<and> failed_downloads (process_future (fetched_job 1 (lit ''T'') dropped) (start [])) = 0
   \<and> successful_downloads
        (run_batch [fetched_job 1 (lit ''T'') calm, failed_job 2, fetched_job 3 (lit ''V'') uncreatable] []) = 1
   \<and> failed_downloads
        (run_batch [fetched_job 1 (lit ''T'') calm, failed_job 2, fetched_job 3 (lit ''V'') uncreatable] []) = 2
   \<and> last (batch_log
        (run_batch [fetched_job 1 (lit ''T'') calm, failed_job 2, fetched_job 3 (lit ''V'') uncreatable] []))
       = InfoSessionCompleted 1 2"
proof -
  let ?jobs = "[fetched_job 1 (lit ''T'') calm, failed_job 2, fetched_job 3 (lit ''V'') uncreatable]"
  have h: "fetched (fetched_job 1 (lit ''T'') dropped) = Inr [webm_post (Some 7)]"
    by (simp add: fetched_job_def)
  have p: "\<not> processing_raises [webm_post (Some 7)] (world (fetched_job 1 (lit ''T'') dropped))"
    by code_simp
  have p': "processing_raises [webm_post (Some 7)] dropped = False"
    by code_simp
  have o: "outcomes (download_webms [webm_post (Some 7)] (lit ''T'') dropped []) = [Failed RequestError]"
    by code_simp
  have j: "thread_id (fetched_job 1 (lit ''T'') dropped) = 1"
    "thread_title (fetched_job 1 (lit ''T'') dropped) = lit ''T''"
    "world (fetched_job 1 (lit ''T'') dropped) = dropped"
    by (simp_all add: fetched_job_def)
  have n: "length (filter counted_successful ?jobs) = 1"
    "length (filter (\<lambda>j. \<not> counted_successful j) ?jobs) = 2"
    by code_simp+
  from fetched_listing_counts_as_succeeded [of "fetched_job 1 (lit ''T'') dropped"
      "[webm_post (Some 7)]" "start []" ?jobs "[]"]
    h p p' o j n
  show ?thesis by (simp add: start_def)
qed

text \<open>
  A fetched listing for which \<open>os.makedirs\<close> raises an exception that is no \<open>OSError\<close> is
  counted as an error, and nothing is requested or written for it.
\<close>

lemma processing_exception_counts_as_error:
  "report (run_batch [fetched_job 1 (lit ''T'') uncreatable] []) = [(1, Aborted)]
   \<and> successful_downloads (run_batch [fetched_job 1 (lit ''T'') uncreatable] []) = 0
   \<and> failed_downloads (run_batch [fetched_job 1 (lit ''T'') uncreatable] []) = 1
   \<and> batch_requests (run_batch [fetched_job 1 (lit ''T'') uncreatable] []) = []
   \<and> batch_files (run_batch [fetched_job 1 (lit ''T'') uncreatable] []) = []
   \<and> batch_log (run_batch [fetched_job 1 (lit ''T'') uncreatable] [])
       = [InfoProcessingThread (lit ''T'') 1, ErrorProcessingThread (lit ''T'') 1,
          InfoSessionCompleted 0 1]"
  by code_simp

section \<open>Running the pipeline twice\<close>

text \<open>
  Without another writer the existence check of the loop body never succeeds, because
  \<open>get_unique_filepath\<close> has just returned a path that does not exist: every post with a
  usable remote id leads to a request, whatever the directory holds.
\<close>

lemma request_always_issued:
  assumes "race env = NoRace" and "post_tim w = Some t" and "t \<noteq> 0"
  shows "requested (webm_iteration d env w fs fn) = [file_url t]"
proof -
  have "race_before_check env fs (target_path d w fs) = fs"
    using assms(1) by (simp add: race_before_check_def)
  with assms(2,3) target_path_free [of fs d w] show ?thesis
    by (simp add: webm_iteration_def Let_def)
qed

text \<open>
  C1. Idempotence over the output directory: a second run with the same selection issues no
  attachment request, every outcome is \<open>Skipped\<close>, and the files written before are
  unchanged. The code does not behave so: after a first run has stored \<open>T/a.webm\<close>, a second
  run requests the attachment again and stores a second copy as \<open>T/a_1.webm\<close>. Only the
  last part holds: the file of the first run is left unchanged.
\<close>

theorem second_run_downloads_again:
  "batch_files (run_batch [fetched_job 1 (lit ''T'') calm] []) = [(lit ''T/a.webm'', [1, 2, 3])]
   \<and> report (run_batch [fetched_job 1 (lit ''T'') calm] [(lit ''T/a.webm'', [1, 2, 3])])
       = [(1, Done [Downloaded (lit ''T/a_1.webm'')])]
   \<and> batch_requests (run_batch [fetched_job 1 (lit ''T'') calm] [(lit ''T/a.webm'', [1, 2, 3])])
       = [file_url 7]
   \<and> batch_files (run_batch [fetched_job 1 (lit ''T'') calm] [(lit ''T/a.webm'', [1, 2, 3])])
       = [(lit ''T/a.webm'', [1, 2, 3]), (lit ''T/a_1.webm'', [1, 2, 3])]"
  by code_simp

end
